theory Spec2Isabelle
  imports Complex_Main
begin

section \<open>Marks, moves and the board (models.py)\<close>

text \<open>
  A mark is the string \<^verbatim>\<open>'X'\<close> or \<^verbatim>\<open>'O'\<close>; a cell holds a mark or the empty string,
  modelled as \<open>None\<close>. \<^verbatim>\<open>Board.__init__\<close> rejects every grid that is not 3 by 3, so a
  grid is a triple of rows and a row a triple of cells. Coordinates are Python integers.
\<close>

datatype mark = MarkX | MarkO

type_synonym cell = "mark option"

datatype move = Move (mx: int) (my: int)

type_synonym row = "cell \<times> cell \<times> cell"

type_synonym board = "row \<times> row \<times> row"

datatype error =
    InvalidMark | InvalidDifficulty | GameNotInProgress | WrongTurn
  | OutOfBounds | CellOccupied | NameError | AttributeError | IndexError

text \<open>
  Indexing a triple. Every read and write of the source is behind the test
  \<^verbatim>\<open>0 <= x < 3 and 0 <= y < 3\<close> or iterates \<^verbatim>\<open>range(3)\<close>, so the last branch is only
  ever taken for index 2.
\<close>

fun nth3 :: "'a \<times> 'a \<times> 'a \<Rightarrow> int \<Rightarrow> 'a" where
  "nth3 (a, b, c) i = (if i = 0 then a else if i = 1 then b else c)"

fun upd3 :: "'a \<times> 'a \<times> 'a \<Rightarrow> int \<Rightarrow> 'a \<Rightarrow> 'a \<times> 'a \<times> 'a" where
  "upd3 (a, b, c) i v =
     (if i = 0 then (v, b, c) else if i = 1 then (a, v, c) else (a, b, v))"

fun elems3 :: "'a \<times> 'a \<times> 'a \<Rightarrow> 'a list" where
  "elems3 (a, b, c) = [a, b, c]"

definition range3 :: "int list" where
  "range3 = [0, 1, 2]"

definition grid_get :: "board \<Rightarrow> int \<Rightarrow> int \<Rightarrow> cell" where
  "grid_get g x y = nth3 (nth3 g x) y"

definition grid_set :: "board \<Rightarrow> int \<Rightarrow> int \<Rightarrow> cell \<Rightarrow> board" where
  "grid_set g x y v = upd3 g x (upd3 (nth3 g x) y v)"

definition empty_row :: row where
  "empty_row = (None, None, None)"

definition new_board :: board where
  "new_board = (empty_row, empty_row, empty_row)"

definition in_bounds :: "int \<Rightarrow> int \<Rightarrow> bool" where
  "in_bounds x y \<longleftrightarrow> 0 \<le> x \<and> x < 3 \<and> 0 \<le> y \<and> y < 3"

definition get_empty_cells :: "board \<Rightarrow> move list" where
  "get_empty_cells g = [Move x y. x \<leftarrow> range3, y \<leftarrow> range3, grid_get g x y = None]"

definition is_cell_empty :: "board \<Rightarrow> int \<Rightarrow> int \<Rightarrow> error + bool" where
  "is_cell_empty g x y =
     (if \<not> in_bounds x y then Inl OutOfBounds else Inr (grid_get g x y = None))"

definition make_move :: "board \<Rightarrow> move \<Rightarrow> mark \<Rightarrow> error + board" where
  "make_move g m mark =
     (if \<not> in_bounds (mx m) (my m) then Inl OutOfBounds
      else if grid_get g (mx m) (my m) \<noteq> None then Inl CellOccupied
      else Inr (grid_set g (mx m) (my m) (Some mark)))"

definition undo_move :: "board \<Rightarrow> move \<Rightarrow> error + board" where
  "undo_move g m =
     (if \<not> in_bounds (mx m) (my m) then Inl OutOfBounds
      else Inr (grid_set g (mx m) (my m) None))"

definition check_win :: "board \<Rightarrow> mark \<Rightarrow> bool" where
  "check_win g mark \<longleftrightarrow>
       list_ex (\<lambda>row. list_all (\<lambda>cell. cell = Some mark) (elems3 row)) (elems3 g)
     \<or> list_ex (\<lambda>col. list_all (\<lambda>row. grid_get g row col = Some mark) range3) range3
     \<or> list_all (\<lambda>i. grid_get g i i = Some mark) range3
     \<or> list_all (\<lambda>i. grid_get g i (2 - i) = Some mark) range3"

definition check_draw :: "board \<Rightarrow> bool" where
  "check_draw g \<longleftrightarrow>
     list_all (\<lambda>x. list_all (\<lambda>y. grid_get g x y \<noteq> None) range3) range3"


text \<open>The number of empty cells, the quantity that bounds every search below.\<close>

definition empties :: "board \<Rightarrow> nat" where
  "empties g = length (get_empty_cells g)"

section \<open>Basic facts about the board\<close>

lemma in_bounds_cases:
  "in_bounds x y \<longleftrightarrow> (x = 0 \<or> x = 1 \<or> x = 2) \<and> (y = 0 \<or> y = 1 \<or> y = 2)"
  unfolding in_bounds_def by auto

lemma grid_set_get_same:
  "in_bounds x y \<Longrightarrow> grid_get (grid_set g x y v) x y = v"
  by (cases g rule: prod_cases3; cases "fst g" rule: prod_cases3;
      cases "fst (snd g)" rule: prod_cases3; cases "snd (snd g)" rule: prod_cases3)
     (auto simp: in_bounds_cases grid_get_def grid_set_def)

lemma grid_set_restore:
  "in_bounds x y \<Longrightarrow> grid_set (grid_set g x y v) x y (grid_get g x y) = g"
  by (cases g rule: prod_cases3; cases "fst g" rule: prod_cases3;
      cases "fst (snd g)" rule: prod_cases3; cases "snd (snd g)" rule: prod_cases3)
     (auto simp: in_bounds_cases grid_get_def grid_set_def)

lemma make_move_Inr_iff:
  "make_move g m mark = Inr g' \<longleftrightarrow>
     in_bounds (mx m) (my m) \<and> grid_get g (mx m) (my m) = None
     \<and> g' = grid_set g (mx m) (my m) (Some mark)"
  by (auto simp: make_move_def)

lemma undo_after_make:
  assumes "make_move g m mark = Inr g'"
  shows "undo_move g' m = Inr g"
proof -
  from assms have b: "in_bounds (mx m) (my m)"
    and e: "grid_get g (mx m) (my m) = None"
    and g': "g' = grid_set g (mx m) (my m) (Some mark)"
    by (simp_all add: make_move_Inr_iff)
  from grid_set_restore [OF b, of g "Some mark"] e
  have "grid_set g' (mx m) (my m) None = g" by (simp add: g')
  with b show ?thesis by (simp add: undo_move_def)
qed

lemma length_if_singleton: "length (if c then [m] else []) = of_bool c"
  by simp

lemma empties_formula:
  "empties ((a, b, c), (d, e, f), (g, h, i)) =
     of_bool (a = None) + of_bool (b = None) + of_bool (c = None)
   + of_bool (d = None) + of_bool (e = None) + of_bool (f = None)
   + of_bool (g = None) + of_bool (h = None) + of_bool (i = None)"
  unfolding empties_def get_empty_cells_def range3_def grid_get_def
  by (simp only: list.map concat.simps length_append length_if_singleton nth3.simps
        append_Nil2 list.size) simp

lemma empties_grid_set:
  assumes "in_bounds x y" and "grid_get g x y = None"
  shows "Suc (empties (grid_set g x y (Some mark))) = empties g"
proof -
  obtain a b c d e f h i j where g: "g = ((a, b, c), (d, e, f), (h, i, j))"
    by (metis prod_cases3)
  from assms(1) have "(x = 0 \<or> x = 1 \<or> x = 2) \<and> (y = 0 \<or> y = 1 \<or> y = 2)"
    by (simp add: in_bounds_cases)
  then show ?thesis using assms(2) unfolding g
    by (elim disjE conjE; simp add: grid_get_def grid_set_def empties_formula)
qed

lemma empties_make_move:
  assumes "make_move g m mark = Inr g1"
  shows "Suc (empties g1) = empties g"
  using assms empties_grid_set by (simp add: make_move_Inr_iff)

section \<open>The random source\<close>

text \<open>
  The source draws from the global \<^verbatim>\<open>random\<close> module. One engine operation makes at most
  one AI move, and one AI move draws at most once at each of four places, so the draws of
  an operation are a record: the index behind \<^verbatim>\<open>random.choice\<close> in the strategy, the
  value of \<^verbatim>\<open>random.random()\<close> in \<^verbatim>\<open>should_make_suboptimal_move\<close>, the value of
  \<^verbatim>\<open>random.random()\<close> inside \<^verbatim>\<open>random.uniform\<close>, and the index behind the fallback
  \<^verbatim>\<open>random.choice\<close> of \<^verbatim>\<open>adjust_move\<close>. Floating-point values are idealised as reals.
\<close>

record draws =
  choice_draw :: nat
  coin_draw :: real
  uniform_draw :: real
  fallback_draw :: nat

text \<open>\<^verbatim>\<open>random.choice(seq)\<close> is \<^verbatim>\<open>seq[randbelow(len(seq))]\<close> and raises on an empty sequence.\<close>

definition random_choice :: "'a list \<Rightarrow> nat \<Rightarrow> error + 'a" where
  "random_choice xs n = (if xs = [] then Inl IndexError else Inr (xs ! (n mod length xs)))"

text \<open>\<^verbatim>\<open>random.uniform(a, b)\<close> is \<^verbatim>\<open>a + (b - a) * random()\<close>.\<close>

definition random_uniform :: "real \<Rightarrow> real \<Rightarrow> real \<Rightarrow> real" where
  "random_uniform a b u = a + (b - a) * u"

section \<open>Strategies (ai_strategy.py)\<close>

subsection \<open>Easy\<close>

definition easy_find_best_move :: "board \<Rightarrow> mark \<Rightarrow> draws \<Rightarrow> error + move option" where
  "easy_find_best_move g mark d =
     (let empty_cells = get_empty_cells g in
      if empty_cells = [] then Inr None
      else map_sum id Some (random_choice empty_cells (choice_draw d)))"

subsection \<open>Medium\<close>

text \<open>
  The names bound at module level in ai_strategy.py: its two import lines and its four
  class statements. A name used in a method body that is neither local nor in this list
  nor a builtin raises \<^verbatim>\<open>NameError\<close> when the line is executed.
\<close>

definition ai_strategy_globals :: "string list" where
  "ai_strategy_globals =
     [''random'', ''ABC'', ''abstractmethod'',
      ''AIStrategy'', ''EasyAIStrategy'', ''MediumAIStrategy'', ''HardAIStrategy'']"

definition ai_strategy_Move :: "int \<Rightarrow> int \<Rightarrow> error + move" where
  "ai_strategy_Move x y =
     (if ''Move'' \<in> set ai_strategy_globals then Inr (Move x y) else Inl NameError)"

text \<open>
  \<^verbatim>\<open>_find_winning_move\<close>: the loop over the empty cells, each step placing the mark,
  testing for a win and clearing the cell again; the board the next step sees is the one
  \<^verbatim>\<open>undo_move\<close> leaves.
\<close>

fun find_winning_move_loop :: "board \<Rightarrow> move list \<Rightarrow> mark \<Rightarrow> error + move option" where
  "find_winning_move_loop g [] mark = Inr None"
| "find_winning_move_loop g (m # ms) mark =
     (case make_move g m mark of
        Inl e \<Rightarrow> Inl e
      | Inr g1 \<Rightarrow>
          (let is_win = check_win g1 mark in
           case undo_move g1 m of
             Inl e \<Rightarrow> Inl e
           | Inr g2 \<Rightarrow> if is_win then Inr (Some m) else find_winning_move_loop g2 ms mark))"

definition find_winning_move :: "board \<Rightarrow> mark \<Rightarrow> error + move option" where
  "find_winning_move g mark = find_winning_move_loop g (get_empty_cells g) mark"

definition medium_find_best_move :: "board \<Rightarrow> mark \<Rightarrow> draws \<Rightarrow> error + move option" where
  "medium_find_best_move g mark d =
     (let opponent_mark = (if mark = MarkX then MarkO else MarkX) in
      case find_winning_move g mark of
        Inl e \<Rightarrow> Inl e
      | Inr (Some winning_move) \<Rightarrow> Inr (Some winning_move)
      | Inr None \<Rightarrow>
     (case find_winning_move g opponent_mark of
        Inl e \<Rightarrow> Inl e
      | Inr (Some blocking_move) \<Rightarrow> Inr (Some blocking_move)
      | Inr None \<Rightarrow>
     (case ai_strategy_Move 1 1 of
        Inl e \<Rightarrow> Inl e
      | Inr center \<Rightarrow>
     (case is_cell_empty g (mx center) (my center) of
        Inl e \<Rightarrow> Inl e
      | Inr True \<Rightarrow> Inr (Some center)
      | Inr False \<Rightarrow>
          (let empty_cells = get_empty_cells g in
           if empty_cells \<noteq> [] then map_sum id Some (random_choice empty_cells (choice_draw d))
           else Inr None)))))"

subsection \<open>Hard: scores\<close>

text \<open>
  A score is a Python integer or one of \<^verbatim>\<open>float('-inf')\<close>, \<^verbatim>\<open>float('inf')\<close>, with
  Python's order between them.
\<close>

datatype score = NegInf | Fin int | PosInf

instantiation score :: linorder
begin

fun less_eq_score :: "score \<Rightarrow> score \<Rightarrow> bool" where
  "less_eq_score NegInf _ = True"
| "less_eq_score (Fin a) NegInf = False"
| "less_eq_score (Fin a) (Fin b) = (a \<le> b)"
| "less_eq_score (Fin a) PosInf = True"
| "less_eq_score PosInf PosInf = True"
| "less_eq_score PosInf _ = False"

definition less_score :: "score \<Rightarrow> score \<Rightarrow> bool" where
  "less_score a b \<longleftrightarrow> a \<le> b \<and> \<not> b \<le> a"

instance
proof
  fix x y z :: score
  show "(x < y) = (x \<le> y \<and> \<not> y \<le> x)" by (simp add: less_score_def)
  show "x \<le> x" by (cases x) simp_all
  show "x \<le> y \<Longrightarrow> y \<le> z \<Longrightarrow> x \<le> z" by (cases x; cases y; cases z) simp_all
  show "x \<le> y \<Longrightarrow> y \<le> x \<Longrightarrow> x = y" by (cases x; cases y) simp_all
  show "x \<le> y \<or> y \<le> x" by (cases x; cases y) auto
qed

end

subsection \<open>Hard: minimax with alpha-beta pruning\<close>

text \<open>The two components of the termination measure of the search below.\<close>

definition search_board ::
  "(board \<times> 'a) + (board \<times> 'b) + (board \<times> 'c) \<Rightarrow> board" where
  "search_board a =
     (case a of Inl (g, _) \<Rightarrow> g | Inr (Inl (g, _)) \<Rightarrow> g | Inr (Inr (g, _)) \<Rightarrow> g)"

definition search_pending ::
  "'a + ('b \<times> move list \<times> 'c) + ('b \<times> move list \<times> 'd) \<Rightarrow> nat" where
  "search_pending a =
     (case a of
        Inl _ \<Rightarrow> 0
      | Inr (Inl (_, ms, _)) \<Rightarrow> length ms
      | Inr (Inr (_, ms, _)) \<Rightarrow> length ms)"

text \<open>
  \<^verbatim>\<open>_minimax\<close> and its two loops. Each loop step places a mark, evaluates the position one
  ply deeper, clears the cell again and continues on the board \<^verbatim>\<open>undo_move\<close> leaves; the
  \<^verbatim>\<open>break\<close> is the branch that returns without looking at the remaining moves.
\<close>

function minimax :: "board \<Rightarrow> int \<Rightarrow> bool \<Rightarrow> mark \<Rightarrow> mark \<Rightarrow> score \<Rightarrow> score \<Rightarrow> error + score"
  and max_loop :: "board \<Rightarrow> move list \<Rightarrow> int \<Rightarrow> mark \<Rightarrow> mark \<Rightarrow> score \<Rightarrow> score \<Rightarrow> score \<Rightarrow> error + score"
  and min_loop :: "board \<Rightarrow> move list \<Rightarrow> int \<Rightarrow> mark \<Rightarrow> mark \<Rightarrow> score \<Rightarrow> score \<Rightarrow> score \<Rightarrow> error + score"
where
  "minimax g depth is_maximizing ai_mark opponent_mark alpha beta =
     (if check_win g ai_mark then Inr (Fin (10 - depth))
      else if check_win g opponent_mark then Inr (Fin (depth - 10))
      else if check_draw g then Inr (Fin 0)
      else if is_maximizing
        then max_loop g (get_empty_cells g) depth ai_mark opponent_mark alpha beta NegInf
        else min_loop g (get_empty_cells g) depth ai_mark opponent_mark alpha beta PosInf)"
| "max_loop g [] depth ai_mark opponent_mark alpha beta max_eval = Inr max_eval"
| "max_loop g (m # ms) depth ai_mark opponent_mark alpha beta max_eval =
     (case make_move g m ai_mark of
        Inl e \<Rightarrow> Inl e
      | Inr g1 \<Rightarrow>
     (case minimax g1 (depth + 1) False ai_mark opponent_mark alpha beta of
        Inl e \<Rightarrow> Inl e
      | Inr eval \<Rightarrow>
     (case undo_move g1 m of
        Inl e \<Rightarrow> Inl e
      | Inr g2 \<Rightarrow>
          (let max_eval' = max max_eval eval; alpha' = max alpha eval in
           if beta \<le> alpha' then Inr max_eval'
           else max_loop g2 ms depth ai_mark opponent_mark alpha' beta max_eval'))))"
| "min_loop g [] depth ai_mark opponent_mark alpha beta min_eval = Inr min_eval"
| "min_loop g (m # ms) depth ai_mark opponent_mark alpha beta min_eval =
     (case make_move g m opponent_mark of
        Inl e \<Rightarrow> Inl e
      | Inr g1 \<Rightarrow>
     (case minimax g1 (depth + 1) True ai_mark opponent_mark alpha beta of
        Inl e \<Rightarrow> Inl e
      | Inr eval \<Rightarrow>
     (case undo_move g1 m of
        Inl e \<Rightarrow> Inl e
      | Inr g2 \<Rightarrow>
          (let min_eval' = min min_eval eval; beta' = min beta eval in
           if beta' \<le> alpha then Inr min_eval'
           else min_loop g2 ms depth ai_mark opponent_mark alpha beta' min_eval'))))"
  by pat_completeness auto

termination
proof (relation "measures [\<lambda>a. empties (search_board a), \<lambda>a. if isl a then 1 else 0, search_pending]",
       goal_cases)
  case 1 show ?case by simp
next
  case 2 show ?case by (simp add: search_board_def)
next
  case 3 show ?case by (simp add: search_board_def)
next
  case 4 then show ?case using empties_make_move by (fastforce simp: search_board_def)
next
  case (5 g m ms depth ai_mark opponent_mark alpha beta max_eval g1 eval g2)
  then have "g2 = g" using undo_after_make by fastforce
  then show ?case by (simp add: search_board_def search_pending_def)
next
  case 6 then show ?case using empties_make_move by (fastforce simp: search_board_def)
next
  case (7 g m ms depth ai_mark opponent_mark alpha beta max_eval g1 eval g2)
  then have "g2 = g" using undo_after_make by fastforce
  then show ?case by (simp add: search_board_def search_pending_def)
qed

text \<open>
  \<^verbatim>\<open>find_best_move\<close>: the root loop keeps the first move whose score is strictly greater
  than every score before it. \<open>hard_search\<close> is the loop with its final \<^verbatim>\<open>best_score\<close>
  kept beside \<^verbatim>\<open>best_move\<close>; the method returns the move alone.
\<close>

fun hard_loop ::
  "board \<Rightarrow> move list \<Rightarrow> mark \<Rightarrow> mark \<Rightarrow> score \<Rightarrow> move option
     \<Rightarrow> error + (score \<times> move option)" where
  "hard_loop g [] mark opponent_mark best_score best_move = Inr (best_score, best_move)"
| "hard_loop g (m # ms) mark opponent_mark best_score best_move =
     (case make_move g m mark of
        Inl e \<Rightarrow> Inl e
      | Inr g1 \<Rightarrow>
     (case minimax g1 0 False mark opponent_mark NegInf PosInf of
        Inl e \<Rightarrow> Inl e
      | Inr score \<Rightarrow>
     (case undo_move g1 m of
        Inl e \<Rightarrow> Inl e
      | Inr g2 \<Rightarrow>
          if score > best_score then hard_loop g2 ms mark opponent_mark score (Some m)
          else hard_loop g2 ms mark opponent_mark best_score best_move)))"

definition hard_search :: "board \<Rightarrow> mark \<Rightarrow> error + (score \<times> move option)" where
  "hard_search g mark =
     (let opponent_mark = (if mark = MarkX then MarkO else MarkX) in
      hard_loop g (get_empty_cells g) mark opponent_mark NegInf None)"

definition hard_find_best_move :: "board \<Rightarrow> mark \<Rightarrow> error + move option" where
  "hard_find_best_move g mark = map_sum id snd (hard_search g mark)"

section \<open>Personality and opponent (ai_opponent.py)\<close>

datatype AIStrategy = EasyAIStrategy | MediumAIStrategy | HardAIStrategy

text \<open>\<^verbatim>\<open>str.lower\<close> on the ASCII letters, which is all the three accepted names need.\<close>

definition lower_char :: "char \<Rightarrow> char" where
  "lower_char c =
     (case map_of (zip ''ABCDEFGHIJKLMNOPQRSTUVWXYZ'' ''abcdefghijklmnopqrstuvwxyz'') c of
        Some l \<Rightarrow> l
      | None \<Rightarrow> c)"

definition lower :: "string \<Rightarrow> string" where
  "lower str = map lower_char str"

definition create_strategy :: "string \<Rightarrow> error + AIStrategy" where
  "create_strategy difficulty =
     (if lower difficulty = ''easy'' then Inr EasyAIStrategy
      else if lower difficulty = ''medium'' then Inr MediumAIStrategy
      else if lower difficulty = ''hard'' then Inr HardAIStrategy
      else Inl InvalidDifficulty)"

text \<open>The polymorphic call \<^verbatim>\<open>strategy.find_best_move(board, mark)\<close>.\<close>

definition find_best_move :: "AIStrategy \<Rightarrow> board \<Rightarrow> mark \<Rightarrow> draws \<Rightarrow> error + move option" where
  "find_best_move strat g mark d =
     (case strat of
        EasyAIStrategy \<Rightarrow> easy_find_best_move g mark d
      | MediumAIStrategy \<Rightarrow> medium_find_best_move g mark d
      | HardAIStrategy \<Rightarrow> hard_find_best_move g mark)"

record AIPersonality =
  randomness_factor :: real

definition new_AIPersonality :: "real \<Rightarrow> AIPersonality" where
  "new_AIPersonality rf = \<lparr>randomness_factor = max 0 (min 1 rf)\<rparr>"

text \<open>
  The table \<^verbatim>\<open>move_preferences\<close> is the same in every personality, so it is a constant;
  the weights 1.2, 1.5 and 1.0 are the reals twelve, fifteen and ten tenths.
\<close>

definition move_preferences :: "(int \<times> int) \<rightharpoonup> real" where
  "move_preferences =
     map_of [((0, 0), 12 / 10), ((0, 2), 12 / 10), ((2, 0), 12 / 10), ((2, 2), 12 / 10),
             ((1, 1), 15 / 10),
             ((0, 1), 1), ((1, 0), 1), ((1, 2), 1), ((2, 1), 1)]"

definition should_make_suboptimal_move :: "AIPersonality \<Rightarrow> draws \<Rightarrow> bool" where
  "should_make_suboptimal_move p d \<longleftrightarrow> coin_draw d < randomness_factor p"

text \<open>The cumulative walk of \<^verbatim>\<open>adjust_move\<close>; \<open>None\<close> when the loop ends without returning.\<close>

fun weighted_walk :: "(move \<times> real) list \<Rightarrow> real \<Rightarrow> real \<Rightarrow> move option" where
  "weighted_walk [] upto0 r = None"
| "weighted_walk ((move, weight) # rest) upto0 r =
     (let upto' = upto0 + weight in
      if upto' \<ge> r then Some move else weighted_walk rest upto' r)"

definition weigh :: "move \<Rightarrow> move \<times> real" where
  "weigh move =
     (move, case move_preferences (mx move, my move) of Some w \<Rightarrow> w | None \<Rightarrow> 1)"

definition adjust_move :: "move option \<Rightarrow> board \<Rightarrow> draws \<Rightarrow> error + move option" where
  "adjust_move suggested_move g d =
     (let empty_cells = get_empty_cells g in
      if length empty_cells \<le> 1 then Inr suggested_move
      else
        (let suboptimal_candidates = filter (\<lambda>move. Some move \<noteq> suggested_move) empty_cells in
         if suboptimal_candidates = [] then Inr suggested_move
         else
           (let weighted_candidates = map weigh suboptimal_candidates;
                total_weight = sum_list (map snd weighted_candidates);
                r = random_uniform 0 total_weight (uniform_draw d)
            in case weighted_walk weighted_candidates 0 r of
                 Some move \<Rightarrow> Inr (Some move)
               | None \<Rightarrow>
                   map_sum id Some (random_choice suboptimal_candidates (fallback_draw d)))))"

record AIOpponent =
  difficulty_level :: string
  opponent_player_mark :: mark
  opponent_ai_mark :: mark
  strategy :: AIStrategy
  personality :: AIPersonality

definition new_AIOpponent :: "string \<Rightarrow> mark \<Rightarrow> error + AIOpponent" where
  "new_AIOpponent difficulty pm =
     (case create_strategy difficulty of
        Inl e \<Rightarrow> Inl e
      | Inr strat \<Rightarrow>
          Inr \<lparr>difficulty_level = difficulty,
               opponent_player_mark = pm,
               opponent_ai_mark = (if pm = MarkX then MarkO else MarkX),
               strategy = strat,
               personality = new_AIPersonality (1 / 10)\<rparr>)"

definition opponent_make_move :: "AIOpponent \<Rightarrow> board \<Rightarrow> draws \<Rightarrow> error + move option" where
  "opponent_make_move a g d =
     (case find_best_move (strategy a) g (opponent_ai_mark a) d of
        Inl e \<Rightarrow> Inl e
      | Inr suggested_move \<Rightarrow>
          if should_make_suboptimal_move (personality a) d
          then adjust_move suggested_move g d
          else Inr suggested_move)"

text \<open>
  \<^verbatim>\<open>set_difficulty\<close> stores the name before it builds the strategy, so a rejected name is
  stored all the same.
\<close>

definition set_difficulty :: "string \<Rightarrow> AIOpponent \<Rightarrow> (error + unit) \<times> AIOpponent" where
  "set_difficulty difficulty a =
     (let a1 = a\<lparr>difficulty_level := difficulty\<rparr> in
      case create_strategy difficulty of
        Inl e \<Rightarrow> (Inl e, a1)
      | Inr strat \<Rightarrow> (Inr (), a1\<lparr>strategy := strat\<rparr>))"

definition set_personality :: "real \<Rightarrow> AIOpponent \<Rightarrow> AIOpponent" where
  "set_personality rf a = a\<lparr>personality := new_AIPersonality rf\<rparr>"

section \<open>The game engine (game_engine.py)\<close>

datatype GameStatus = NotStarted | InProgress | PlayerWin | AIWin | Draw

text \<open>
  The attributes of a \<^verbatim>\<open>GameEngine\<close>; those that are \<^verbatim>\<open>None\<close> until a game starts are
  options. An operation returns its result, or the exception it raises, beside the engine
  as the call leaves it. The result kept is the \<^verbatim>\<open>ai_move\<close> entry of the returned
  dictionary; the other entries are read off the engine.
\<close>

record GameEngine =
  board :: "board option"
  current_player :: "mark option"
  ai_opponent :: "AIOpponent option"
  game_status :: GameStatus
  player_mark :: "mark option"
  ai_mark :: "mark option"

definition new_GameEngine :: GameEngine where
  "new_GameEngine =
     \<lparr>board = None, current_player = None, ai_opponent = None,
      game_status = NotStarted, player_mark = None, ai_mark = None\<rparr>"

text \<open>
  \<^verbatim>\<open>_update_game_status_after_move\<close>. Calling a method of a board that is still
  \<^verbatim>\<open>None\<close> raises \<^verbatim>\<open>AttributeError\<close>.
\<close>

definition update_game_status_after_move :: "mark \<Rightarrow> GameEngine \<Rightarrow> error + GameEngine" where
  "update_game_status_after_move mark s =
     (case board s of
        None \<Rightarrow> Inl AttributeError
      | Some g \<Rightarrow>
          if check_win g mark then
            (if Some mark = player_mark s then Inr (s\<lparr>game_status := PlayerWin\<rparr>)
             else Inr (s\<lparr>game_status := AIWin\<rparr>))
          else if check_draw g then Inr (s\<lparr>game_status := Draw\<rparr>)
          else Inr (s\<lparr>current_player :=
                        Some (if current_player s = Some MarkX then MarkO else MarkX)\<rparr>))"

text \<open>
  \<^verbatim>\<open>_process_ai_move\<close>. The status is \<^verbatim>\<open>in_progress\<close> only after both marks were
  assigned, so the branch for an unassigned AI mark is never taken by an engine built
  through \<^verbatim>\<open>start_new_game\<close>.
\<close>

definition process_ai_move :: "draws \<Rightarrow> GameEngine \<Rightarrow> (error + move option) \<times> GameEngine" where
  "process_ai_move d s =
     (if game_status s \<noteq> InProgress \<or> current_player s \<noteq> ai_mark s then (Inr None, s)
      else
        case (ai_opponent s, board s, ai_mark s) of
          (Some a, Some g, Some am) \<Rightarrow>
            (case opponent_make_move a g d of
               Inl e \<Rightarrow> (Inl e, s)
             | Inr None \<Rightarrow> (Inr None, s)
             | Inr (Some ai_move) \<Rightarrow>
                 (case make_move g ai_move am of
                    Inl e \<Rightarrow> (Inl e, s)
                  | Inr g' \<Rightarrow>
                      (let s1 = s\<lparr>board := Some g'\<rparr> in
                       case update_game_status_after_move am s1 of
                         Inl e \<Rightarrow> (Inl e, s1)
                       | Inr s2 \<Rightarrow> (Inr (Some ai_move), s2))))
        | _ \<Rightarrow> (Inl AttributeError, s))"

definition parse_mark :: "string \<Rightarrow> mark option" where
  "parse_mark str = (if str = ''X'' then Some MarkX else if str = ''O'' then Some MarkO else None)"

definition start_new_game ::
  "string \<Rightarrow> string \<Rightarrow> draws \<Rightarrow> GameEngine \<Rightarrow> (error + move option) \<times> GameEngine" where
  "start_new_game player_mark_str difficulty d s =
     (case parse_mark player_mark_str of
        None \<Rightarrow> (Inl InvalidMark, s)
      | Some pm \<Rightarrow>
          (let s1 = s\<lparr>board := Some new_board,
                      player_mark := Some pm,
                      ai_mark := Some (if pm = MarkX then MarkO else MarkX)\<rparr> in
           case new_AIOpponent difficulty pm of
             Inl e \<Rightarrow> (Inl e, s1)
           | Inr a \<Rightarrow>
               (let s2 = s1\<lparr>ai_opponent := Some a,
                            current_player := Some MarkX,
                            game_status := InProgress\<rparr> in
                if ai_mark s2 = Some MarkX then process_ai_move d s2
                else (Inr None, s2))))"

text \<open>
  \<^verbatim>\<open>player_move\<close>. The \<^verbatim>\<open>ValueError\<close> of \<^verbatim>\<open>Board.make_move\<close> is caught and raised again with
  the prefix \<^verbatim>\<open>Invalid move:\<close>; the kind of error stays the same.
\<close>

definition player_move ::
  "int \<Rightarrow> int \<Rightarrow> draws \<Rightarrow> GameEngine \<Rightarrow> (error + move option) \<times> GameEngine" where
  "player_move x y d s =
     (if game_status s \<noteq> InProgress then (Inl GameNotInProgress, s)
      else if current_player s \<noteq> player_mark s then (Inl WrongTurn, s)
      else
        (let move = Move x y in
         case (board s, player_mark s) of
           (Some g, Some pm) \<Rightarrow>
             (case make_move g move pm of
                Inl e \<Rightarrow> (Inl e, s)
              | Inr g' \<Rightarrow>
                  (let s1 = s\<lparr>board := Some g'\<rparr> in
                   case update_game_status_after_move pm s1 of
                     Inl e \<Rightarrow> (Inl e, s1)
                   | Inr s2 \<Rightarrow>
                       if game_status s2 = InProgress then process_ai_move d s2
                       else (Inr None, s2)))
         | _ \<Rightarrow> (Inl AttributeError, s)))"

definition change_difficulty :: "string \<Rightarrow> GameEngine \<Rightarrow> (error + bool) \<times> GameEngine" where
  "change_difficulty difficulty s =
     (case ai_opponent s of
        None \<Rightarrow> (Inr False, s)
      | Some a \<Rightarrow>
          (case set_difficulty difficulty a of
             (Inl e, a') \<Rightarrow> (Inl e, s\<lparr>ai_opponent := Some a'\<rparr>)
           | (Inr _, a') \<Rightarrow> (Inr True, s\<lparr>ai_opponent := Some a'\<rparr>)))"

definition set_ai_personality :: "real \<Rightarrow> GameEngine \<Rightarrow> bool \<times> GameEngine" where
  "set_ai_personality rf s =
     (case ai_opponent s of
        None \<Rightarrow> (False, s)
      | Some a \<Rightarrow> (True, s\<lparr>ai_opponent := Some (set_personality rf a)\<rparr>))"

text \<open>
  The engines a caller can hold: a fresh one, and the one any call leaves behind, whether
  the call returned or raised.
\<close>

inductive reachable :: "GameEngine \<Rightarrow> bool" where
  reachable_new: "reachable new_GameEngine"
| reachable_start: "reachable s \<Longrightarrow> reachable (snd (start_new_game pm difficulty d s))"
| reachable_move: "reachable s \<Longrightarrow> reachable (snd (player_move x y d s))"
| reachable_difficulty: "reachable s \<Longrightarrow> reachable (snd (change_difficulty difficulty s))"
| reachable_personality: "reachable s \<Longrightarrow> reachable (snd (set_ai_personality rf s))"

section \<open>Round trip of placing and clearing\<close>

text \<open>
  C8. For every board, every mark and every in-bounds empty cell, \<^verbatim>\<open>make_move\<close> succeeds
  and \<^verbatim>\<open>undo_move\<close> on the same move then succeeds and gives back exactly the board the
  pair of calls started from.
\<close>

theorem make_move_undo_move_round_trip:
  assumes "in_bounds (mx m) (my m)" and "grid_get g (mx m) (my m) = None"
  shows "\<exists>g'. make_move g m mark = Inr g' \<and> undo_move g' m = Inr g"
proof -
  from assms have "make_move g m mark = Inr (grid_set g (mx m) (my m) (Some mark))"
    by (simp add: make_move_def)
  then show ?thesis using undo_after_make by blast
qed

theorem make_move_undo_move_round_trip_witness:
  "in_bounds 1 2 \<and> grid_get ((Some MarkX, None, None), (None, Some MarkO, None), (None, None, None)) 1 2 = None
   \<and> make_move ((Some MarkX, None, None), (None, Some MarkO, None), (None, None, None)) (Move 1 2) MarkX
       = Inr ((Some MarkX, None, None), (None, Some MarkO, Some MarkX), (None, None, None))
   \<and> undo_move ((Some MarkX, None, None), (None, Some MarkO, Some MarkX), (None, None, None)) (Move 1 2)
       = Inr ((Some MarkX, None, None), (None, Some MarkO, None), (None, None, None))"
proof -
  have b: "in_bounds (mx (Move 1 2)) (my (Move 1 2))"
    by (simp add: in_bounds_def)
  have e: "grid_get ((Some MarkX, None, None), (None, Some MarkO, None), (None, None, None))
             (mx (Move 1 2)) (my (Move 1 2)) = None"
    by (simp add: grid_get_def)
  from make_move_undo_move_round_trip [OF b e, of MarkX] b e show ?thesis
    by (auto simp: make_move_def undo_move_def grid_get_def grid_set_def in_bounds_def)
qed

section \<open>Sample inputs\<close>

definition sample_draws :: draws where
  "sample_draws = \<lparr>choice_draw = 0, coin_draw = 1 / 2, uniform_draw = 1 / 2, fallback_draw = 0\<rparr>"

definition started_hard :: GameEngine where
  "started_hard = snd (start_new_game ''X'' ''hard'' sample_draws new_GameEngine)"

definition won_state :: GameEngine where
  "won_state =
     \<lparr>board = Some ((Some MarkX, Some MarkX, Some MarkX),
                     (Some MarkO, Some MarkO, None),
                     (None, None, None)),
      current_player = Some MarkX, ai_opponent = None, game_status = InProgress,
      player_mark = Some MarkX, ai_mark = Some MarkO\<rparr>"

lemma started_hard_eq:
  "started_hard =
     \<lparr>board = Some new_board, current_player = Some MarkX,
      ai_opponent = Some \<lparr>difficulty_level = ''hard'', opponent_player_mark = MarkX,
                           opponent_ai_mark = MarkO, strategy = HardAIStrategy,
                           personality = \<lparr>randomness_factor = 1 / 10\<rparr>\<rparr>,
      game_status = InProgress, player_mark = Some MarkX, ai_mark = Some MarkO\<rparr>"
  by (simp add: started_hard_def start_new_game_def parse_mark_def new_AIOpponent_def
        create_strategy_def lower_def lower_char_def Let_def new_GameEngine_def
        new_AIPersonality_def)

section \<open>Medium strategy: the centre and the random fallback\<close>

lemma medium_raises_when_no_forced_move:
  assumes "find_winning_move g mark = Inr None"
    and "find_winning_move g (if mark = MarkX then MarkO else MarkX) = Inr None"
  shows "medium_find_best_move g mark d = Inl NameError"
  using assms
  by (simp add: medium_find_best_move_def ai_strategy_Move_def ai_strategy_globals_def)

text \<open>
  C1. On the empty board neither mark has an immediate win and the centre is empty, so
  the claim has \<^verbatim>\<open>find_best_move\<close> return the centre. The method instead reaches
  \<^verbatim>\<open>Move(1, 1)\<close>, a name ai_strategy.py never imports, and raises \<^verbatim>\<open>NameError\<close>.
\<close>

theorem medium_center_raises_NameError:
  "medium_find_best_move new_board MarkX d = Inl NameError"
  by (simp add: medium_find_best_move_def find_winning_move_def get_empty_cells_def
        range3_def grid_get_def new_board_def empty_row_def make_move_def undo_move_def
        in_bounds_def grid_set_def check_win_def ai_strategy_Move_def
        ai_strategy_globals_def)

text \<open>The same happens where the claim has the method fall back to a random empty cell.\<close>

lemma medium_fallback_raises_NameError:
  "medium_find_best_move ((None, None, None), (None, Some MarkX, None), (None, None, None))
     MarkO d = Inl NameError"
  by (simp add: medium_find_best_move_def find_winning_move_def get_empty_cells_def
        range3_def grid_get_def make_move_def undo_move_def
        in_bounds_def grid_set_def check_win_def ai_strategy_Move_def
        ai_strategy_globals_def)

section \<open>Out-of-bounds moves and the game status\<close>

text \<open>
  C6, as stated: \<^verbatim>\<open>player_move(3, 0)\<close> fails with the out-of-bounds error whatever the
  status. On an engine that has not started a game the call fails with the
  not-in-progress error instead.
\<close>

theorem player_move_3_0_not_started:
  "player_move 3 0 sample_draws new_GameEngine = (Inl GameNotInProgress, new_GameEngine)"
  by (simp add: player_move_def new_GameEngine_def)

text \<open>
  C6, amended. \<^verbatim>\<open>player_move(3, 0)\<close> always fails and leaves the engine as it was. The
  error is the not-in-progress error unless the status is \<^verbatim>\<open>in_progress\<close>, then the
  wrong-turn error unless it is the player's turn, and the out-of-bounds error only when
  the game is in progress and it is the player's turn.
\<close>

theorem player_move_3_0_error:
  assumes "game_status s = InProgress \<Longrightarrow> board s \<noteq> None \<and> player_mark s \<noteq> None"
  shows "player_move 3 0 d s =
           (if game_status s \<noteq> InProgress then Inl GameNotInProgress
            else if current_player s \<noteq> player_mark s then Inl WrongTurn
            else Inl OutOfBounds, s)"
  using assms
  by (auto simp: player_move_def make_move_def in_bounds_def split: option.splits)

theorem player_move_3_0_error_witness:
  "game_status started_hard = InProgress
   \<and> board started_hard \<noteq> None \<and> player_mark started_hard \<noteq> None
   \<and> player_move 3 0 sample_draws started_hard = (Inl OutOfBounds, started_hard)"
proof -
  have h: "game_status started_hard = InProgress
             \<Longrightarrow> board started_hard \<noteq> None \<and> player_mark started_hard \<noteq> None"
    by (simp add: started_hard_eq)
  from player_move_3_0_error [OF h, of sample_draws] show ?thesis
    by (simp add: started_hard_eq)
qed

section \<open>The current player after a move\<close>

text \<open>
  C10. \<^verbatim>\<open>_update_game_status_after_move\<close> is called for the mark that just moved, which is
  the current player, in a game in progress. The status it leaves is terminal exactly when
  the move won or filled the board, and then the current player is still the mark that
  moved; when the game stays in progress the current player is the other mark.
\<close>

theorem update_game_status_current_player:
  assumes "board s = Some g" and "current_player s = Some mark" and "game_status s = InProgress"
  shows "\<exists>s'. update_game_status_after_move mark s = Inr s'
           \<and> (game_status s' \<noteq> InProgress \<longleftrightarrow> check_win g mark \<or> check_draw g)
           \<and> (game_status s' \<noteq> InProgress \<longrightarrow> current_player s' = Some mark)
           \<and> (game_status s' = InProgress \<longrightarrow>
                 current_player s' = Some (if mark = MarkX then MarkO else MarkX))"
  using assms by (cases mark) (auto simp: update_game_status_after_move_def)

theorem update_game_status_current_player_witness:
  "board won_state = Some ((Some MarkX, Some MarkX, Some MarkX),
                     (Some MarkO, Some MarkO, None),
                     (None, None, None))
   \<and> current_player won_state = Some MarkX \<and> game_status won_state = InProgress
   \<and> update_game_status_after_move MarkX won_state = Inr (won_state\<lparr>game_status := PlayerWin\<rparr>)
   \<and> current_player (won_state\<lparr>game_status := PlayerWin\<rparr>) = Some MarkX"
proof -
  have b: "board won_state = Some ((Some MarkX, Some MarkX, Some MarkX),
                     (Some MarkO, Some MarkO, None),
                     (None, None, None))"
    and c: "current_player won_state = Some MarkX"
    and st: "game_status won_state = InProgress"
    by (simp_all add: won_state_def)
  from update_game_status_current_player [OF b c st] b c st show ?thesis
    by (auto simp: update_game_status_after_move_def check_win_def won_state_def)
qed

section \<open>The personality of a new opponent\<close>






section \<open>Winning lines\<close>

lemma check_win_formula:
  "check_win ((a, b, c), (d, e, f), (g, h, i)) m \<longleftrightarrow>
        (a = Some m \<and> b = Some m \<and> c = Some m) \<or> (d = Some m \<and> e = Some m \<and> f = Some m)
      \<or> (g = Some m \<and> h = Some m \<and> i = Some m) \<or> (a = Some m \<and> d = Some m \<and> g = Some m)
      \<or> (b = Some m \<and> e = Some m \<and> h = Some m) \<or> (c = Some m \<and> f = Some m \<and> i = Some m)
      \<or> (a = Some m \<and> e = Some m \<and> i = Some m) \<or> (c = Some m \<and> e = Some m \<and> g = Some m)"
  by (simp add: check_win_def range3_def grid_get_def)

lemma check_win_new_board: "\<not> check_win new_board m"
  by (simp add: new_board_def empty_row_def check_win_formula)



lemma grid_get_grid_set:
  assumes "in_bounds x y" and "in_bounds x' y'"
  shows "grid_get (grid_set g x y v) x' y' = (if x' = x \<and> y' = y then v else grid_get g x' y')"
proof -
  obtain c1 c2 c3 c4 c5 c6 c7 c8 c9 where g: "g = ((c1, c2, c3), (c4, c5, c6), (c7, c8, c9))"
    by (metis prod_cases3)
  from assms have "(x = 0 \<or> x = 1 \<or> x = 2) \<and> (y = 0 \<or> y = 1 \<or> y = 2)"
    and "(x' = 0 \<or> x' = 1 \<or> x' = 2) \<and> (y' = 0 \<or> y' = 1 \<or> y' = 2)"
    by (simp_all add: in_bounds_cases)
  then show ?thesis unfolding g
    by (elim disjE conjE; simp add: grid_set_def grid_get_def)
qed

lemma check_win_grid_get:
  "check_win g m \<longleftrightarrow>
        (grid_get g 0 0 = Some m \<and> grid_get g 0 1 = Some m \<and> grid_get g 0 2 = Some m)
      \<or> (grid_get g 1 0 = Some m \<and> grid_get g 1 1 = Some m \<and> grid_get g 1 2 = Some m)
      \<or> (grid_get g 2 0 = Some m \<and> grid_get g 2 1 = Some m \<and> grid_get g 2 2 = Some m)
      \<or> (grid_get g 0 0 = Some m \<and> grid_get g 1 0 = Some m \<and> grid_get g 2 0 = Some m)
      \<or> (grid_get g 0 1 = Some m \<and> grid_get g 1 1 = Some m \<and> grid_get g 2 1 = Some m)
      \<or> (grid_get g 0 2 = Some m \<and> grid_get g 1 2 = Some m \<and> grid_get g 2 2 = Some m)
      \<or> (grid_get g 0 0 = Some m \<and> grid_get g 1 1 = Some m \<and> grid_get g 2 2 = Some m)
      \<or> (grid_get g 0 2 = Some m \<and> grid_get g 1 1 = Some m \<and> grid_get g 2 0 = Some m)"
proof -
  obtain c1 c2 c3 c4 c5 c6 c7 c8 c9 where g: "g = ((c1, c2, c3), (c4, c5, c6), (c7, c8, c9))"
    by (metis prod_cases3)
  show ?thesis unfolding g by (simp add: check_win_formula) (simp add: grid_get_def)
qed

lemma check_win_mono:
  assumes "\<And>x y. in_bounds x y \<Longrightarrow> grid_get g' x y = Some b \<Longrightarrow> grid_get g x y = Some b"
    and "check_win g' b"
  shows "check_win g b"
proof -
  have "grid_get g' x y = Some b \<Longrightarrow> grid_get g x y = Some b"
    if "(x = 0 \<or> x = 1 \<or> x = 2) \<and> (y = 0 \<or> y = 1 \<or> y = 2)" for x y
    using assms(1) that by (simp add: in_bounds_cases)
  then have
    "grid_get g' 0 0 = Some b \<Longrightarrow> grid_get g 0 0 = Some b"
    "grid_get g' 0 1 = Some b \<Longrightarrow> grid_get g 0 1 = Some b"
    "grid_get g' 0 2 = Some b \<Longrightarrow> grid_get g 0 2 = Some b"
    "grid_get g' 1 0 = Some b \<Longrightarrow> grid_get g 1 0 = Some b"
    "grid_get g' 1 1 = Some b \<Longrightarrow> grid_get g 1 1 = Some b"
    "grid_get g' 1 2 = Some b \<Longrightarrow> grid_get g 1 2 = Some b"
    "grid_get g' 2 0 = Some b \<Longrightarrow> grid_get g 2 0 = Some b"
    "grid_get g' 2 1 = Some b \<Longrightarrow> grid_get g 2 1 = Some b"
    "grid_get g' 2 2 = Some b \<Longrightarrow> grid_get g 2 2 = Some b"
    by simp_all
  note cells = this
  from assms(2) show ?thesis
    unfolding check_win_grid_get [of g'] check_win_grid_get [of g]
    by (elim disjE conjE) (simp_all add: cells)
qed

lemma check_win_after_other_mark:
  assumes "make_move g m a = Inr g'" and "b \<noteq> a" and "check_win g' b"
  shows "check_win g b"
proof (rule check_win_mono [OF _ assms(3)])
  fix x y
  assume "in_bounds x y" and "grid_get g' x y = Some b"
  with assms(1,2) show "grid_get g x y = Some b"
    by (auto simp: make_move_Inr_iff grid_get_grid_set split: if_splits)
qed

section \<open>At most one winner on a reachable board\<close>

definition engine_inv :: "GameEngine \<Rightarrow> bool" where
  "engine_inv s \<longleftrightarrow>
     (case board s of
        None \<Rightarrow> True
      | Some g \<Rightarrow>
          \<not> (check_win g MarkX \<and> check_win g MarkO)
          \<and> (game_status s = InProgress \<longrightarrow> \<not> check_win g MarkX \<and> \<not> check_win g MarkO))"

lemma engine_inv_after_move:
  assumes "\<not> check_win g MarkX" and "\<not> check_win g MarkO"
    and "make_move g m a = Inr g'" and "board s1 = Some g'"
  shows "\<exists>s2. update_game_status_after_move a s1 = Inr s2 \<and> engine_inv s2"
proof -
  have other: "\<not> check_win g' b" if "b \<noteq> a" for b
    using check_win_after_other_mark [OF assms(3) that] assms(1,2) by (cases b) auto
  show ?thesis
  proof (cases "check_win g' a")
    case True
    with assms(4) other show ?thesis
      by (cases a) (auto simp: update_game_status_after_move_def engine_inv_def)
  next
    case False
    with other have "\<not> check_win g' MarkX" "\<not> check_win g' MarkO"
      by (cases a; auto)+
    with assms(4) False show ?thesis
      by (auto simp: update_game_status_after_move_def engine_inv_def)
  qed
qed

lemma engine_inv_process_ai_move:
  assumes "engine_inv s"
  shows "engine_inv (snd (process_ai_move d s))"
proof (cases "game_status s \<noteq> InProgress \<or> current_player s \<noteq> ai_mark s")
  case True
  with assms show ?thesis by (simp add: process_ai_move_def)
next
  case False
  show ?thesis
  proof (cases "\<exists>a g am. ai_opponent s = Some a \<and> board s = Some g \<and> ai_mark s = Some am")
    case False
    with assms \<open>\<not> (game_status s \<noteq> InProgress \<or> current_player s \<noteq> ai_mark s)\<close>
    show ?thesis by (auto simp: process_ai_move_def split: option.splits)
  next
    case True
    then obtain a g am where a: "ai_opponent s = Some a" and g: "board s = Some g"
      and am: "ai_mark s = Some am" by blast
    from assms g False have nw: "\<not> check_win g MarkX" "\<not> check_win g MarkO"
      by (auto simp: engine_inv_def)
    show ?thesis
    proof (cases "opponent_make_move a g d")
      case (Inl e)
      with assms False a g am show ?thesis by (simp add: process_ai_move_def)
    next
      case (Inr r)
      show ?thesis
      proof (cases r)
        case None
        with Inr assms False a g am show ?thesis by (simp add: process_ai_move_def)
      next
        case (Some ai_move)
        show ?thesis
        proof (cases "make_move g ai_move am")
          case (Inl e)
          with Some Inr assms False a g am show ?thesis by (simp add: process_ai_move_def)
        next
          case (Inr g')
          from engine_inv_after_move [OF nw Inr, of "s\<lparr>board := Some g'\<rparr>"]
          obtain s2 where "update_game_status_after_move am (s\<lparr>board := Some g'\<rparr>) = Inr s2"
            and "engine_inv s2" by auto
          with Inr Some \<open>opponent_make_move a g d = Inr r\<close> False a g am show ?thesis
            by (simp add: process_ai_move_def)
        qed
      qed
    qed
  qed
qed

lemma engine_inv_player_move:
  assumes "engine_inv s"
  shows "engine_inv (snd (player_move x y d s))"
proof (cases "game_status s \<noteq> InProgress \<or> current_player s \<noteq> player_mark s")
  case True
  with assms show ?thesis by (auto simp: player_move_def)
next
  case False
  show ?thesis
  proof (cases "\<exists>g pm. board s = Some g \<and> player_mark s = Some pm")
    case False
    with assms \<open>\<not> (game_status s \<noteq> InProgress \<or> current_player s \<noteq> player_mark s)\<close>
    show ?thesis by (auto simp: player_move_def split: option.splits)
  next
    case True
    then obtain g pm where g: "board s = Some g" and pm: "player_mark s = Some pm" by blast
    from assms g False have nw: "\<not> check_win g MarkX" "\<not> check_win g MarkO"
      by (auto simp: engine_inv_def)
    show ?thesis
    proof (cases "make_move g (Move x y) pm")
      case (Inl e)
      with assms False g pm show ?thesis by (simp add: player_move_def)
    next
      case (Inr g')
      from engine_inv_after_move [OF nw Inr, of "s\<lparr>board := Some g'\<rparr>"]
      obtain s2 where "update_game_status_after_move pm (s\<lparr>board := Some g'\<rparr>) = Inr s2"
        and "engine_inv s2" by auto
      with Inr False g pm show ?thesis
        by (simp add: player_move_def engine_inv_process_ai_move)
    qed
  qed
qed

lemma engine_inv_start_new_game:
  assumes "engine_inv s"
  shows "engine_inv (snd (start_new_game pm difficulty d s))"
proof (cases "parse_mark pm")
  case None
  with assms show ?thesis by (simp add: start_new_game_def)
next
  case (Some m)
  define s1 where "s1 = s\<lparr>board := Some new_board, player_mark := Some m,
      ai_mark := Some (if m = MarkX then MarkO else MarkX)\<rparr>"
  have i1: "engine_inv s1" by (simp add: engine_inv_def s1_def check_win_new_board)
  show ?thesis
  proof (cases "new_AIOpponent difficulty m")
    case (Inl e)
    with Some i1 show ?thesis by (simp add: start_new_game_def s1_def)
  next
    case (Inr a)
    define s2 where "s2 = s1\<lparr>ai_opponent := Some a, current_player := Some MarkX,
        game_status := InProgress\<rparr>"
    have i2: "engine_inv s2" by (simp add: engine_inv_def s2_def s1_def check_win_new_board)
    have "start_new_game pm difficulty d s =
        (if ai_mark s2 = Some MarkX then process_ai_move d s2 else (Inr None, s2))"
      using Some Inr by (simp add: start_new_game_def Let_def s2_def s1_def)
    with i2 show ?thesis by (simp add: engine_inv_process_ai_move)
  qed
qed


lemma engine_inv_change_difficulty:
  assumes "engine_inv s"
  shows "engine_inv (snd (change_difficulty difficulty s))"
  using assms
  by (auto simp: change_difficulty_def engine_inv_def split: option.splits prod.splits sum.splits)

lemma engine_inv_set_ai_personality:
  assumes "engine_inv s"
  shows "engine_inv (snd (set_ai_personality rf s))"
  using assms
  by (auto simp: set_ai_personality_def engine_inv_def split: option.splits)

lemma reachable_engine_inv: "reachable s \<Longrightarrow> engine_inv s"
proof (induction rule: reachable.induct)
  case reachable_new
  show ?case by (simp add: engine_inv_def new_GameEngine_def)
next
  case (reachable_start s pm difficulty d)
  then show ?case by (simp add: engine_inv_start_new_game)
next
  case (reachable_move s x y d)
  then show ?case by (simp add: engine_inv_player_move)
next
  case (reachable_difficulty s difficulty)
  then show ?case by (simp add: engine_inv_change_difficulty)
next
  case (reachable_personality s rf)
  then show ?case by (simp add: engine_inv_set_ai_personality)
qed

definition started_easy :: GameEngine where
  "started_easy = snd (start_new_game ''X'' ''easy'' sample_draws new_GameEngine)"

definition mid_game :: GameEngine where
  "mid_game = snd (player_move 0 0 sample_draws started_easy)"

lemma started_easy_eq:
  "started_easy =
     \<lparr>board = Some new_board, current_player = Some MarkX,
      ai_opponent = Some \<lparr>difficulty_level = ''easy'', opponent_player_mark = MarkX,
                           opponent_ai_mark = MarkO, strategy = EasyAIStrategy,
                           personality = \<lparr>randomness_factor = 1 / 10\<rparr>\<rparr>,
      game_status = InProgress, player_mark = Some MarkX, ai_mark = Some MarkO\<rparr>"
  by (simp add: started_easy_def start_new_game_def parse_mark_def new_AIOpponent_def
        create_strategy_def lower_def lower_char_def Let_def new_GameEngine_def
        new_AIPersonality_def)

lemma mid_game_eq:
  "mid_game =
     \<lparr>board = Some ((Some MarkX, Some MarkO, None), (None, None, None), (None, None, None)),
      current_player = Some MarkX,
      ai_opponent = Some \<lparr>difficulty_level = ''easy'', opponent_player_mark = MarkX,
                           opponent_ai_mark = MarkO, strategy = EasyAIStrategy,
                           personality = \<lparr>randomness_factor = 1 / 10\<rparr>\<rparr>,
      game_status = InProgress, player_mark = Some MarkX, ai_mark = Some MarkO\<rparr>"
  by (simp add: mid_game_def started_easy_eq player_move_def make_move_def in_bounds_def
        grid_get_def grid_set_def new_board_def empty_row_def
        update_game_status_after_move_def check_win_formula check_draw_def range3_def
        process_ai_move_def opponent_make_move_def find_best_move_def
        easy_find_best_move_def get_empty_cells_def random_choice_def sample_draws_def
        should_make_suboptimal_move_def Let_def)

lemma reachable_mid_game: "reachable mid_game"
  unfolding mid_game_def started_easy_def
  by (intro reachable.intros)

text \<open>
  C5. On the board of every engine a caller can reach, by any sequence of calls and
  whatever the AI draws, the marks X and O do not both have a winning line.
\<close>

theorem reachable_never_both_win:
  assumes "reachable s" and "board s = Some g"
  shows "\<not> (check_win g MarkX \<and> check_win g MarkO)"
  using reachable_engine_inv [OF assms(1)] assms(2) by (simp add: engine_inv_def)


theorem reachable_never_both_win_witness:
  "reachable mid_game
   \<and> board mid_game = Some ((Some MarkX, Some MarkO, None), (None, None, None), (None, None, None))
   \<and> \<not> (check_win ((Some MarkX, Some MarkO, None), (None, None, None), (None, None, None)) MarkX
        \<and> check_win ((Some MarkX, Some MarkO, None), (None, None, None), (None, None, None)) MarkO)"
proof -
  have b: "board mid_game =
      Some ((Some MarkX, Some MarkO, None), (None, None, None), (None, None, None))"
    by (simp add: mid_game_eq)
  from reachable_never_both_win [OF reachable_mid_game b] reachable_mid_game b
  show ?thesis by simp
qed

section \<open>Rejected operations\<close>

text \<open>The rejections that leave the engine as it was.\<close>

lemma start_new_game_invalid_mark_atomic:
  "parse_mark pm = None \<Longrightarrow> start_new_game pm difficulty d s = (Inl InvalidMark, s)"
  by (simp add: start_new_game_def)

lemma player_move_not_in_progress_atomic:
  "game_status s \<noteq> InProgress \<Longrightarrow> player_move x y d s = (Inl GameNotInProgress, s)"
  by (simp add: player_move_def)

lemma player_move_wrong_turn_atomic:
  "game_status s = InProgress \<Longrightarrow> current_player s \<noteq> player_mark s
     \<Longrightarrow> player_move x y d s = (Inl WrongTurn, s)"
  by (simp add: player_move_def)

lemma player_move_rejected_atomic:
  "game_status s = InProgress \<Longrightarrow> current_player s = player_mark s
     \<Longrightarrow> board s = Some g \<Longrightarrow> player_mark s = Some pm
     \<Longrightarrow> make_move g (Move x y) pm = Inl e
     \<Longrightarrow> player_move x y d s = (Inl e, s)"
  by (simp add: player_move_def)

text \<open>
  C2. In a game in progress with two marks on the board, \<^verbatim>\<open>start_new_game\<close> with an
  unknown difficulty raises the invalid-difficulty error, but only after \<^verbatim>\<open>self.board\<close> was
  replaced: the call leaves an empty board, the status still \<^verbatim>\<open>in_progress\<close>.
\<close>

theorem start_new_game_invalid_difficulty_resets_board:
  "board mid_game = Some ((Some MarkX, Some MarkO, None), (None, None, None), (None, None, None))
   \<and> game_status mid_game = InProgress
   \<and> fst (start_new_game ''X'' ''expert'' sample_draws mid_game) = Inl InvalidDifficulty
   \<and> board (snd (start_new_game ''X'' ''expert'' sample_draws mid_game))
       = Some ((None, None, None), (None, None, None), (None, None, None))
   \<and> game_status (snd (start_new_game ''X'' ''expert'' sample_draws mid_game)) = InProgress"
  by (simp add: mid_game_eq start_new_game_def parse_mark_def new_AIOpponent_def
        create_strategy_def lower_def lower_char_def Let_def new_board_def empty_row_def)

section \<open>The weighted choice of the personality\<close>











section \<open>Alpha-beta pruning against exhaustive minimax\<close>

text \<open>The board after a mark was placed on an empty cell.\<close>

definition place :: "board \<Rightarrow> move \<Rightarrow> mark \<Rightarrow> board" where
  "place g m mark = grid_set g (mx m) (my m) (Some mark)"

lemma get_empty_cells_iff:
  "m \<in> set (get_empty_cells g) \<longleftrightarrow> in_bounds (mx m) (my m) \<and> grid_get g (mx m) (my m) = None"
  by (cases m) (auto simp: get_empty_cells_def range3_def in_bounds_cases)

lemma make_move_empty_cell:
  "m \<in> set (get_empty_cells g) \<Longrightarrow> make_move g m mark = Inr (place g m mark)"
  by (simp add: get_empty_cells_iff make_move_def place_def)

lemma undo_move_place:
  "m \<in> set (get_empty_cells g) \<Longrightarrow> undo_move (place g m mark) m = Inr g"
  using make_move_empty_cell undo_after_make by blast

lemma empties_place:
  "m \<in> set (get_empty_cells g) \<Longrightarrow> empties (place g m mark) < empties g"
proof -
  assume "m \<in> set (get_empty_cells g)"
  then have "Suc (empties (place g m mark)) = empties g"
    by (rule empties_make_move [OF make_move_empty_cell])
  then show ?thesis by simp
qed

text \<open>
  The reference the pruned search is compared with: minimax over the whole game tree, with
  the same terminal scores and the same root rule, and no bounds carried along.
\<close>

fun max_scores :: "score list \<Rightarrow> score" where
  "max_scores [] = NegInf"
| "max_scores (v # vs) = max v (max_scores vs)"

fun min_scores :: "score list \<Rightarrow> score" where
  "min_scores [] = PosInf"
| "min_scores (v # vs) = min v (min_scores vs)"

function minimax_exhaustive :: "board \<Rightarrow> int \<Rightarrow> bool \<Rightarrow> mark \<Rightarrow> mark \<Rightarrow> score" where
  "minimax_exhaustive g depth is_maximizing ai opp =
     (if check_win g ai then Fin (10 - depth)
      else if check_win g opp then Fin (depth - 10)
      else if check_draw g then Fin 0
      else if is_maximizing
        then max_scores (map (\<lambda>m. minimax_exhaustive (place g m ai) (depth + 1) False
                                   ai opp)
                           (get_empty_cells g))
        else min_scores (map (\<lambda>m. minimax_exhaustive (place g m opp) (depth + 1) True
                                   ai opp)
                           (get_empty_cells g)))"
  by pat_completeness auto
termination
  by (relation "measure (\<lambda>(g, _). empties g)") (auto simp: empties_place)

fun exhaustive_loop ::
  "board \<Rightarrow> move list \<Rightarrow> mark \<Rightarrow> mark \<Rightarrow> score \<Rightarrow> move option \<Rightarrow> score \<times> move option" where
  "exhaustive_loop g [] mark opponent_mark best_score best_move = (best_score, best_move)"
| "exhaustive_loop g (m # ms) mark opponent_mark best_score best_move =
     (let score = minimax_exhaustive (place g m mark) 0 False mark opponent_mark in
      if score > best_score then exhaustive_loop g ms mark opponent_mark score (Some m)
      else exhaustive_loop g ms mark opponent_mark best_score best_move)"

definition exhaustive_search :: "board \<Rightarrow> mark \<Rightarrow> score \<times> move option" where
  "exhaustive_search g mark =
     exhaustive_loop g (get_empty_cells g) mark (if mark = MarkX then MarkO else MarkX)
       NegInf None"

text \<open>
  What a search with window \<open>(\<alpha>, \<beta>)\<close> promises about the value \<open>v\<close> it approximates by
  \<open>r\<close>: a result below \<open>\<beta>\<close> is an upper bound, a result above \<open>\<alpha>\<close> a lower bound.
\<close>

definition fail_soft :: "score \<Rightarrow> score \<Rightarrow> score \<Rightarrow> score \<Rightarrow> bool" where
  "fail_soft \<alpha> \<beta> v r \<longleftrightarrow> (r < \<beta> \<longrightarrow> v \<le> r) \<and> (\<alpha> < r \<longrightarrow> r \<le> v)"

lemma max_step_cut:
  fixes \<alpha> \<beta> me ev v vs :: "'a::linorder"
  assumes "\<alpha> < \<beta>" "me \<le> \<alpha>" "ev < \<beta> \<longrightarrow> v \<le> ev" "\<alpha> < ev \<longrightarrow> ev \<le> v" "\<beta> \<le> max \<alpha> ev"
  shows "me \<le> max me ev \<and> (max me ev < \<beta> \<longrightarrow> max v vs \<le> max me ev)
         \<and> (\<alpha> < max me ev \<longrightarrow> max me ev \<le> max v vs)"
  using assms by (auto simp: max_def not_le split: if_splits)

lemma max_step_continue:
  fixes \<alpha> \<beta> me ev v vs r :: "'a::linorder"
  assumes "\<alpha> < \<beta>" "me \<le> \<alpha>" "ev < \<beta> \<longrightarrow> v \<le> ev" "\<alpha> < ev \<longrightarrow> ev \<le> v"
    and "max me ev \<le> r" "r < \<beta> \<longrightarrow> vs \<le> r" "max \<alpha> ev < r \<longrightarrow> r \<le> vs"
  shows "me \<le> r \<and> (r < \<beta> \<longrightarrow> max v vs \<le> r) \<and> (\<alpha> < r \<longrightarrow> r \<le> max v vs)"
  using assms by (auto simp: max_def not_le split: if_splits)

lemma min_step_cut:
  fixes \<alpha> \<beta> me ev v vs :: "'a::linorder"
  assumes "\<alpha> < \<beta>" "\<beta> \<le> me" "ev < \<beta> \<longrightarrow> v \<le> ev" "\<alpha> < ev \<longrightarrow> ev \<le> v" "min \<beta> ev \<le> \<alpha>"
  shows "min me ev \<le> me \<and> (min me ev < \<beta> \<longrightarrow> min v vs \<le> min me ev)
         \<and> (\<alpha> < min me ev \<longrightarrow> min me ev \<le> min v vs)"
  using assms by (auto simp: min_def not_le split: if_splits)

lemma min_step_continue:
  fixes \<alpha> \<beta> me ev v vs r :: "'a::linorder"
  assumes "\<alpha> < \<beta>" "\<beta> \<le> me" "ev < \<beta> \<longrightarrow> v \<le> ev" "\<alpha> < ev \<longrightarrow> ev \<le> v"
    and "r \<le> min me ev" "r < min \<beta> ev \<longrightarrow> vs \<le> r" "\<alpha> < r \<longrightarrow> r \<le> vs"
  shows "r \<le> me \<and> (r < \<beta> \<longrightarrow> min v vs \<le> r) \<and> (\<alpha> < r \<longrightarrow> r \<le> min v vs)"
  using assms by (auto simp: min_def not_le split: if_splits)


declare minimax.simps [simp del]

declare minimax_exhaustive.simps [simp del]

lemma NegInf_least [simp]: "NegInf \<le> x"
  by simp

lemma PosInf_greatest [simp]: "x \<le> PosInf"
  by (cases x) simp_all

lemma fail_soft_refl: "fail_soft \<alpha> \<beta> v v"
  by (simp add: fail_soft_def)

lemma alpha_beta_fail_soft:
  shows "\<alpha> < \<beta> \<Longrightarrow>
           \<exists>r. minimax g depth im ai opp \<alpha> \<beta> = Inr r
              \<and> fail_soft \<alpha> \<beta> (minimax_exhaustive g depth im ai opp) r"
    and "set ms \<subseteq> set (get_empty_cells g) \<Longrightarrow> \<alpha> < \<beta> \<Longrightarrow> me \<le> \<alpha> \<Longrightarrow>
           \<exists>r. max_loop g ms depth ai opp \<alpha> \<beta> me = Inr r \<and> me \<le> r
              \<and> (r < \<beta> \<longrightarrow>
                    max_scores (map (\<lambda>m. minimax_exhaustive (place g m ai) (depth + 1) False ai opp) ms) \<le> r)
              \<and> (\<alpha> < r \<longrightarrow>
                    r \<le> max_scores (map (\<lambda>m. minimax_exhaustive (place g m ai) (depth + 1) False ai opp) ms))"
    and "set ms \<subseteq> set (get_empty_cells g) \<Longrightarrow> \<alpha> < \<beta> \<Longrightarrow> \<beta> \<le> me \<Longrightarrow>
           \<exists>r. min_loop g ms depth ai opp \<alpha> \<beta> me = Inr r \<and> r \<le> me
              \<and> (r < \<beta> \<longrightarrow>
                    min_scores (map (\<lambda>m. minimax_exhaustive (place g m opp) (depth + 1) True ai opp) ms) \<le> r)
              \<and> (\<alpha> < r \<longrightarrow>
                    r \<le> min_scores (map (\<lambda>m. minimax_exhaustive (place g m opp) (depth + 1) True ai opp) ms))"
proof (induction g depth im ai opp \<alpha> \<beta> and g ms depth ai opp \<alpha> \<beta> me
         and g ms depth ai opp \<alpha> \<beta> me rule: minimax_max_loop_min_loop.induct)
  case (1 g depth im ai opp \<alpha> \<beta>)
  show ?case
  proof (cases "check_win g ai \<or> check_win g opp \<or> check_draw g")
    case True
    then have "minimax g depth im ai opp \<alpha> \<beta> = Inr (minimax_exhaustive g depth im ai opp)"
      by (auto simp: minimax.simps minimax_exhaustive.simps [of g])
    then show ?thesis by (simp add: fail_soft_refl)
  next
    case False
    then have nt: "\<not> check_win g ai" "\<not> check_win g opp" "\<not> check_draw g" by simp_all
    show ?thesis
    proof (cases im)
      case True
      from "1.IH"(1) [OF nt True subset_refl "1.prems" NegInf_least] obtain r where
        r: "max_loop g (get_empty_cells g) depth ai opp \<alpha> \<beta> NegInf = Inr r"
        and b: "r < \<beta> \<longrightarrow>
                max_scores (map (\<lambda>m. minimax_exhaustive (place g m ai) (depth + 1) False ai opp)
                  (get_empty_cells g)) \<le> r"
               "\<alpha> < r \<longrightarrow>
                r \<le> max_scores (map (\<lambda>m. minimax_exhaustive (place g m ai) (depth + 1) False ai opp)
                  (get_empty_cells g))"
        by blast
      have "minimax g depth im ai opp \<alpha> \<beta> = Inr r"
        using nt True r by (simp add: minimax.simps)
      moreover have "minimax_exhaustive g depth im ai opp =
          max_scores (map (\<lambda>m. minimax_exhaustive (place g m ai) (depth + 1) False ai opp)
            (get_empty_cells g))"
        using nt True by (simp add: minimax_exhaustive.simps [of g])
      ultimately show ?thesis using b by (simp add: fail_soft_def)
    next
      case False
      from "1.IH"(2) [OF nt False subset_refl "1.prems" PosInf_greatest] obtain r where
        r: "min_loop g (get_empty_cells g) depth ai opp \<alpha> \<beta> PosInf = Inr r"
        and b: "r < \<beta> \<longrightarrow>
                min_scores (map (\<lambda>m. minimax_exhaustive (place g m opp) (depth + 1) True ai opp)
                  (get_empty_cells g)) \<le> r"
               "\<alpha> < r \<longrightarrow>
                r \<le> min_scores (map (\<lambda>m. minimax_exhaustive (place g m opp) (depth + 1) True ai opp)
                  (get_empty_cells g))"
        by blast
      have "minimax g depth im ai opp \<alpha> \<beta> = Inr r"
        using nt False r by (simp add: minimax.simps)
      moreover have "minimax_exhaustive g depth im ai opp =
          min_scores (map (\<lambda>m. minimax_exhaustive (place g m opp) (depth + 1) True ai opp)
            (get_empty_cells g))"
        using nt False by (simp add: minimax_exhaustive.simps [of g])
      ultimately show ?thesis using b by (simp add: fail_soft_def)
    qed
  qed
next
  case (2 g depth ai opp \<alpha> \<beta> me)
  then show ?case by (auto simp: not_less)
next
  case (3 g m ms depth ai opp \<alpha> \<beta> me)
  from "3.prems"(1) have m: "m \<in> set (get_empty_cells g)"
    and ms: "set ms \<subseteq> set (get_empty_cells g)" by simp_all
  have mk: "make_move g m ai = Inr (place g m ai)" by (rule make_move_empty_cell [OF m])
  have un: "undo_move (place g m ai) m = Inr g" by (rule undo_move_place [OF m])
  define v where "v = minimax_exhaustive (place g m ai) (depth + 1) False ai opp"
  define vs where
    "vs = max_scores (map (\<lambda>m. minimax_exhaustive (place g m ai) (depth + 1) False ai opp) ms)"
  from "3.IH"(1) [OF mk "3.prems"(2)] obtain ev where
    ev: "minimax (place g m ai) (depth + 1) False ai opp \<alpha> \<beta> = Inr ev"
    and fs: "ev < \<beta> \<longrightarrow> v \<le> ev" "\<alpha> < ev \<longrightarrow> ev \<le> v"
    by (auto simp: fail_soft_def v_def)
  show ?case
  proof (cases "\<beta> \<le> max \<alpha> ev")
    case True
    have "max_loop g (m # ms) depth ai opp \<alpha> \<beta> me = Inr (max me ev)"
      using mk ev un True by simp
    with max_step_cut [OF "3.prems"(2,3) fs True, of vs] show ?thesis
      by (simp add: v_def vs_def)
  next
    case False
    then have lt: "max \<alpha> ev < \<beta>" by (simp add: not_le)
    have le: "max me ev \<le> max \<alpha> ev" using "3.prems"(3) by (auto simp: max_def)
    from "3.IH"(2) [OF mk ev un refl refl False ms lt le] obtain r where
      r: "max_loop g ms depth ai opp (max \<alpha> ev) \<beta> (max me ev) = Inr r"
      and b: "max me ev \<le> r" "r < \<beta> \<longrightarrow> vs \<le> r" "max \<alpha> ev < r \<longrightarrow> r \<le> vs"
      by (auto simp: vs_def)
    have "max_loop g (m # ms) depth ai opp \<alpha> \<beta> me = Inr r"
      using mk ev un False r by simp
    with max_step_continue [OF "3.prems"(2,3) fs b] show ?thesis
      by (simp add: v_def vs_def)
  qed
next
  case (4 g depth ai opp \<alpha> \<beta> me)
  then show ?case by (auto simp: not_less)
next
  case (5 g m ms depth ai opp \<alpha> \<beta> me)
  from "5.prems"(1) have m: "m \<in> set (get_empty_cells g)"
    and ms: "set ms \<subseteq> set (get_empty_cells g)" by simp_all
  have mk: "make_move g m opp = Inr (place g m opp)" by (rule make_move_empty_cell [OF m])
  have un: "undo_move (place g m opp) m = Inr g" by (rule undo_move_place [OF m])
  define v where "v = minimax_exhaustive (place g m opp) (depth + 1) True ai opp"
  define vs where
    "vs = min_scores (map (\<lambda>m. minimax_exhaustive (place g m opp) (depth + 1) True ai opp) ms)"
  from "5.IH"(1) [OF mk "5.prems"(2)] obtain ev where
    ev: "minimax (place g m opp) (depth + 1) True ai opp \<alpha> \<beta> = Inr ev"
    and fs: "ev < \<beta> \<longrightarrow> v \<le> ev" "\<alpha> < ev \<longrightarrow> ev \<le> v"
    by (auto simp: fail_soft_def v_def)
  show ?case
  proof (cases "min \<beta> ev \<le> \<alpha>")
    case True
    have "min_loop g (m # ms) depth ai opp \<alpha> \<beta> me = Inr (min me ev)"
      using mk ev un True by simp
    with min_step_cut [OF "5.prems"(2,3) fs True, of vs] show ?thesis
      by (simp add: v_def vs_def)
  next
    case False
    then have lt: "\<alpha> < min \<beta> ev" by (simp add: not_le)
    have le: "min \<beta> ev \<le> min me ev" using "5.prems"(3) by (auto simp: min_def)
    from "5.IH"(2) [OF mk ev un refl refl False ms lt le] obtain r where
      r: "min_loop g ms depth ai opp \<alpha> (min \<beta> ev) (min me ev) = Inr r"
      and b: "r \<le> min me ev" "r < min \<beta> ev \<longrightarrow> vs \<le> r" "\<alpha> < r \<longrightarrow> r \<le> vs"
      by (auto simp: vs_def)
    have "min_loop g (m # ms) depth ai opp \<alpha> \<beta> me = Inr r"
      using mk ev un False r by simp
    with min_step_continue [OF "5.prems"(2,3) fs b] show ?thesis
      by (simp add: v_def vs_def)
  qed
qed


lemma minimax_full_window:
  "minimax g depth im ai opp NegInf PosInf = Inr (minimax_exhaustive g depth im ai opp)"
proof -
  have "NegInf < PosInf" by (simp add: less_score_def)
  from alpha_beta_fail_soft(1) [OF this, of g depth im ai opp] obtain r where
    r: "minimax g depth im ai opp NegInf PosInf = Inr r"
    and up: "r < PosInf \<longrightarrow> minimax_exhaustive g depth im ai opp \<le> r"
    and lo: "NegInf < r \<longrightarrow> r \<le> minimax_exhaustive g depth im ai opp"
    by (auto simp: fail_soft_def)
  have "r = minimax_exhaustive g depth im ai opp"
  proof (cases r)
    case NegInf
    with up have "minimax_exhaustive g depth im ai opp \<le> NegInf" by (simp add: less_score_def)
    with NegInf show ?thesis by (cases "minimax_exhaustive g depth im ai opp") simp_all
  next
    case (Fin n)
    with up lo show ?thesis by (simp add: less_score_def)
  next
    case PosInf
    with lo have "PosInf \<le> minimax_exhaustive g depth im ai opp" by (simp add: less_score_def)
    with PosInf show ?thesis by (cases "minimax_exhaustive g depth im ai opp") simp_all
  qed
  with r show ?thesis by simp
qed

lemma hard_loop_exhaustive_loop:
  assumes "set ms \<subseteq> set (get_empty_cells g)"
  shows "hard_loop g ms mark opp best_score best_move
           = Inr (exhaustive_loop g ms mark opp best_score best_move)"
  using assms
proof (induction ms arbitrary: best_score best_move)
  case Nil
  show ?case by simp
next
  case (Cons m ms)
  then have m: "m \<in> set (get_empty_cells g)" and ms: "set ms \<subseteq> set (get_empty_cells g)"
    by simp_all
  show ?case
    using Cons.IH [OF ms]
    by (simp add: make_move_empty_cell [OF m] undo_move_place [OF m] minimax_full_window Let_def)
qed

text \<open>
  C4. For every board and mark, the root loop of \<^verbatim>\<open>HardAIStrategy.find_best_move\<close> over the
  pruned \<^verbatim>\<open>_minimax\<close> ends with the same best score and the same best move as the root
  loop over exhaustive minimax, and never raises.
\<close>

theorem alpha_beta_same_as_exhaustive:
  "hard_search g mark = Inr (exhaustive_search g mark)
   \<and> hard_find_best_move g mark = Inr (snd (exhaustive_search g mark))"
  by (simp add: hard_search_def hard_find_best_move_def exhaustive_search_def
        hard_loop_exhaustive_loop)

section \<open>Hard against Hard\<close>

text \<open>
  Equations by which the board functions are evaluated on a board written out cell by
  cell.
\<close>

lemma check_win_code [code]:
  "check_win ((a, b, c), (d, e, f), (g, h, i)) m =
     (let s = Some m in
        (a = s \<and> b = s \<and> c = s) \<or> (d = s \<and> e = s \<and> f = s) \<or> (g = s \<and> h = s \<and> i = s)
      \<or> (a = s \<and> d = s \<and> g = s) \<or> (b = s \<and> e = s \<and> h = s) \<or> (c = s \<and> f = s \<and> i = s)
      \<or> (a = s \<and> e = s \<and> i = s) \<or> (c = s \<and> e = s \<and> g = s))"
  by (simp add: check_win_formula Let_def)



























































end
